theory Spec2Isabelle
  imports Main "HOL-Library.Word"
begin

section \<open>Data model of the XDB client (src/xdb-client.ts, src/types/definitions.ts)\<close>

text \<open>
  A JavaScript string is a sequence of UTF-16 code units; a Node \<open>Buffer\<close> is a sequence
  of bytes. The two are kept apart: the socket delivers buffers, and the handler of the
  \<open>data\<close> event turns each of them into a string with \<open>chunk.toString()\<close> before
  \<open>handleStreamData\<close> sees it.
\<close>

type_synonym jschar = "16 word"
type_synonym jsstring = "jschar list"
type_synonym byte = "8 word"
type_synonym buffer = "byte list"

text \<open>A string literal of the source, as code units (the literals of the source are ASCII).\<close>

definition js :: "string \<Rightarrow> jsstring" where
  "js s = map (\<lambda>c. of_nat (of_char c)) s"

text \<open>The bytes of an ASCII text, as a buffer.\<close>

definition ascii :: "string \<Rightarrow> buffer" where
  "ascii s = map (\<lambda>c. of_nat (of_char c)) s"

definition NL :: jschar where
  "NL = 0x0A"

text \<open>\<open>const DEFAULT_HOST = '127.0.0.1'; const FIXED_PORT = 8080;\<close>\<close>

definition DEFAULT_HOST :: jsstring where
  "DEFAULT_HOST = js ''127.0.0.1''"

definition FIXED_PORT :: nat where
  "FIXED_PORT = 8080"

datatype LogLevel = INFO | WARN | ERROR

text \<open>
  An error object: \<open>new Error(message)\<close> has no \<open>code\<close>; the errors a socket emits carry
  one (\<open>err.code\<close>, \<open>err.message\<close>).
\<close>

record js_error =
  message :: jsstring
  code :: "jsstring option"

definition new_Error :: "jsstring \<Rightarrow> js_error" where
  "new_Error m = \<lparr>message = m, code = None\<rparr>"

text \<open>
  What the client does to the outside world, in the order it does it. \<open>'r\<close> names a pending
  promise: the \<open>{resolve, reject}\<close> pair that \<open>sendCommand\<close> pushes (interface
  \<open>ResponseResolver\<close>); \<open>'v\<close> is a parsed JSON value. \<open>Log\<close> is one call of the private
  \<open>log(level, message, details)\<close>: the level, the message and the optional details object
  (here only \<open>{raw: line}\<close>); the timestamp and the colour codes of the formatted line are
  left out.
\<close>

datatype ('r, 'v) effect =
    Resolve 'r 'v
  | Reject 'r js_error
  | ConnectResolve
  | ConnectReject js_error
  | Log LogLevel jsstring "jsstring option"
  | SocketConnect nat jsstring
  | SocketWrite jsstring
  | SocketEnd

text \<open>
  The mutable fields of \<open>class XDBClient\<close>, and what the client has registered on its
  socket (\<open>new net.Socket()\<close> in the constructor, one socket for the life of the client):
  \<open>listeners\<close> counts the calls of \<open>connect()\<close>, each of which adds one \<open>data\<close>, one
  \<open>error\<close> and one \<open>close\<close> listener; \<open>connecting\<close> counts the callbacks handed to
  \<open>socket.connect\<close> that wait for the next \<open>connect\<close> event.
\<close>

record 'r client =
  isConnected :: bool
  responseQueue :: "'r list"
  streamBuffer :: jsstring
  host :: jsstring
  port :: nat
  listeners :: nat
  connecting :: nat

text \<open>\<open>constructor(options)\<close>: \<open>options.host || DEFAULT_HOST\<close>; the empty string is falsy.\<close>

definition constructor :: "jsstring option \<Rightarrow> 'r client" where
  "constructor options_host =
     \<lparr>isConnected = False, responseQueue = [], streamBuffer = [],
      host = (case options_host of
                None \<Rightarrow> DEFAULT_HOST
              | Some h \<Rightarrow> if h = [] then DEFAULT_HOST else h),
      port = FIXED_PORT, listeners = 0, connecting = 0\<rparr>"

section \<open>JavaScript built-ins the client calls\<close>

text \<open>
  \<open>String.prototype.split('\n')\<close>: the pieces between the newlines, one more than there
  are newlines; the empty string gives one empty piece.
\<close>

fun split_nl :: "jsstring \<Rightarrow> jsstring list" where
  "split_nl [] = [[]]"
| "split_nl (c # cs) =
     (if c = NL then [] # split_nl cs
      else (c # hd (split_nl cs)) # tl (split_nl cs))"

text \<open>
  \<open>Array.prototype.pop\<close> and \<open>Array.prototype.shift\<close>: the removed element
  (\<open>undefined\<close> on an empty array, here \<open>None\<close>) and the array that is left.
\<close>

definition pop :: "'a list \<Rightarrow> 'a option \<times> 'a list" where
  "pop xs = (case xs of [] \<Rightarrow> (None, []) | _ \<Rightarrow> (Some (last xs), butlast xs))"

definition shift :: "'a list \<Rightarrow> 'a option \<times> 'a list" where
  "shift xs = (case xs of [] \<Rightarrow> (None, []) | x # rest \<Rightarrow> (Some x, rest))"

text \<open>
  \<open>String.prototype.trim\<close> removes leading and trailing white space and line terminators
  (ECMAScript \<open>WhiteSpace\<close> and \<open>LineTerminator\<close>).
\<close>

definition is_space :: "jschar \<Rightarrow> bool" where
  "is_space c \<longleftrightarrow>
     c \<in> {0x09, 0x0A, 0x0B, 0x0C, 0x0D, 0x20, 0xA0, 0x1680, 0x2028, 0x2029,
          0x202F, 0x205F, 0x3000, 0xFEFF}
     \<or> (0x2000 \<le> c \<and> c \<le> 0x200A)"

definition trim :: "jsstring \<Rightarrow> jsstring" where
  "trim s = rev (dropWhile is_space (rev (dropWhile is_space s)))"

text \<open>\<open>String(n)\<close> of a non-negative integer, as the template literals print the port.\<close>

fun digits :: "nat \<Rightarrow> jsstring" where
  "digits n = (if n < 10 then [of_nat (48 + n)]
               else digits (n div 10) @ [of_nat (48 + n mod 10)])"

text \<open>
  \<open>Buffer.prototype.toString()\<close> (encoding \<open>utf8\<close>) is Node's, not the repository's. It
  decodes UTF-8 and puts U+FFFD in place of every ill-formed or truncated sequence; a
  code point above U+FFFF becomes a surrogate pair. The arguments of \<open>utf8\<close> are the
  number of continuation bytes still needed, the code point collected so far and the
  range allowed for the next continuation byte.
\<close>

definition code_units :: "nat \<Rightarrow> jsstring" where
  "code_units cp =
     (if cp < 0x10000 then [of_nat cp]
      else [of_nat (0xD800 + (cp - 0x10000) div 0x400),
            of_nat (0xDC00 + (cp - 0x10000) mod 0x400)])"

fun utf8 :: "nat \<Rightarrow> nat \<Rightarrow> nat \<Rightarrow> nat \<Rightarrow> buffer \<Rightarrow> jsstring" where
  "utf8 needed cp lo hi [] = (if needed = 0 then [] else [0xFFFD])"
| "utf8 needed cp lo hi (b # bs) =
     (let n = unat b in
      if needed = 0 then
        (if n \<le> 0x7F then of_nat n # utf8 0 0 0x80 0xBF bs
         else if 0xC2 \<le> n \<and> n \<le> 0xDF then utf8 1 (n mod 0x20) 0x80 0xBF bs
         else if 0xE0 \<le> n \<and> n \<le> 0xEF then
           utf8 2 (n mod 0x10) (if n = 0xE0 then 0xA0 else 0x80)
                (if n = 0xED then 0x9F else 0xBF) bs
         else if 0xF0 \<le> n \<and> n \<le> 0xF4 then
           utf8 3 (n mod 0x08) (if n = 0xF0 then 0x90 else 0x80)
                (if n = 0xF4 then 0x8F else 0xBF) bs
         else 0xFFFD # utf8 0 0 0x80 0xBF bs)
      else if n < lo \<or> hi < n then 0xFFFD # utf8 0 0 0x80 0xBF (b # bs)
      else if needed = 1 then code_units (cp * 0x40 + n mod 0x40) @ utf8 0 0 0x80 0xBF bs
      else utf8 (needed - 1) (cp * 0x40 + n mod 0x40) 0x80 0xBF bs)"

definition toString :: "buffer \<Rightarrow> jsstring" where
  "toString chunk = utf8 0 0 0x80 0xBF chunk"

section \<open>The client\<close>

text \<open>
  \<open>private log(level, message, details)\<close>: one formatted line on the console
  (\<open>console.error\<close> for \<open>ERROR\<close>, \<open>console.log\<close> otherwise), then the details when given.
\<close>

definition log :: "LogLevel \<Rightarrow> jsstring \<Rightarrow> jsstring option \<Rightarrow> ('r, 'v) effect list" where
  "log level msg details = [Log level msg details]"

text \<open>
  The body of the \<open>for (const line of lines)\<close> loop of \<open>handleStreamData\<close>, for one line.
  \<open>parse\<close> is \<open>JSON.parse\<close>: \<open>None\<close> when it throws.
\<close>

definition malformed_json :: js_error where
  "malformed_json = new_Error (js ''Critical: Malformed JSON received.'')"

definition handle_line ::
  "(jsstring \<Rightarrow> 'v option) \<Rightarrow> 'r client \<Rightarrow> jsstring \<Rightarrow> 'r client \<times> ('r, 'v) effect list" where
  "handle_line parse s line =
     (if trim line = [] then (s, [])
      else
        (case shift (responseQueue s) of
           (None, q) \<Rightarrow> (s\<lparr>responseQueue := q\<rparr>, [])
         | (Some resolver, q) \<Rightarrow>
             (case parse line of
                Some json \<Rightarrow> (s\<lparr>responseQueue := q\<rparr>, [Resolve resolver json])
              | None \<Rightarrow>
                  (s\<lparr>responseQueue := q\<rparr>,
                   log ERROR (js ''Protocol violation: Malformed JSON received.'') (Some line)
                   @ [Reject resolver malformed_json]))))"

fun for_lines ::
  "(jsstring \<Rightarrow> 'v option) \<Rightarrow> 'r client \<Rightarrow> jsstring list \<Rightarrow> 'r client \<times> ('r, 'v) effect list" where
  "for_lines parse s [] = (s, [])"
| "for_lines parse s (line # lines) =
     (case handle_line parse s line of
        (s1, out1) \<Rightarrow> (case for_lines parse s1 lines of (s2, out2) \<Rightarrow> (s2, out1 @ out2)))"

text \<open>
  \<open>private handleStreamData(chunk: string)\<close>: append, split, keep \<open>lines.pop() || ''\<close> as
  the buffer, run the loop over what is left of \<open>lines\<close>.
\<close>

definition handleStreamData ::
  "(jsstring \<Rightarrow> 'v option) \<Rightarrow> 'r client \<Rightarrow> jsstring \<Rightarrow> 'r client \<times> ('r, 'v) effect list" where
  "handleStreamData parse s chunk =
     (let s1 = s\<lparr>streamBuffer := streamBuffer s @ chunk\<rparr> in
      case pop (split_nl (streamBuffer s1)) of
        (popped, lines) \<Rightarrow>
          for_lines parse
            (s1\<lparr>streamBuffer := (case popped of None \<Rightarrow> [] | Some l \<Rightarrow> if l = [] then [] else l)\<rparr>)
            lines)"

text \<open>
  \<open>connect()\<close> asks the socket to connect, handing it a callback for the \<open>connect\<close> event
  (the socket keeps it for one event), and registers a \<open>data\<close>, an \<open>error\<close> and a
  \<open>close\<close> listener. It does so at every call: nothing is removed, so after a second call
  every event runs two listeners. Each handler below is one listener, a function of the
  state and the event's argument; \<open>ConnectResolve\<close> and \<open>ConnectReject\<close> are \<open>resolve\<close>
  and \<open>reject\<close> of the promise of the call of \<open>connect()\<close> that registered the listener.
\<close>

definition connect :: "'r client \<Rightarrow> 'r client \<times> ('r, 'v) effect list" where
  "connect s =
     (s\<lparr>listeners := Suc (listeners s), connecting := Suc (connecting s)\<rparr>,
      [SocketConnect (port s) (host s)])"

definition on_connect :: "'r client \<Rightarrow> 'r client \<times> ('r, 'v) effect list" where
  "on_connect s =
     (s\<lparr>isConnected := True\<rparr>,
      log INFO (js ''Connection established to '' @ host s @ js '':'' @ digits (port s)) None
      @ [ConnectResolve])"

definition on_data ::
  "(jsstring \<Rightarrow> 'v option) \<Rightarrow> 'r client \<Rightarrow> buffer \<Rightarrow> 'r client \<times> ('r, 'v) effect list" where
  "on_data parse s chunk = handleStreamData parse s (toString chunk)"

text \<open>The text of the hint that the \<open>error\<close> handler logs when the connection was refused.\<close>

definition server_hint :: jsstring where
  "server_hint =
     js (''Hint: Is the XDB server running? Try starting it with ''
         @ [CHR 0x27] @ ''./bin/server'' @ [CHR 0x27])"

definition on_error :: "'r client \<Rightarrow> js_error \<Rightarrow> 'r client \<times> ('r, 'v) effect list" where
  "on_error s err =
     (let s1 = s\<lparr>isConnected := False\<rparr>;
          logged =
            (if code err = Some (js ''ECONNREFUSED'') then
               log ERROR (js ''Failed to connect to host '' @ host s1 @ js '':'' @ digits (port s1)) None
               @ log WARN server_hint None
             else log ERROR (js ''Socket error occurred: '' @ message err) None)
      in if length (responseQueue s1) = 0 then (s1, logged @ [ConnectReject err])
         else
           (case shift (responseQueue s1) of
              (None, q) \<Rightarrow> (s1\<lparr>responseQueue := q\<rparr>, logged)
            | (Some resolver, q) \<Rightarrow> (s1\<lparr>responseQueue := q\<rparr>, logged @ [Reject resolver err])))"

definition on_close :: "'r client \<Rightarrow> 'r client \<times> ('r, 'v) effect list" where
  "on_close s = (s\<lparr>isConnected := False\<rparr>, [])"

text \<open>
  The request object (\<open>interface XDBRequest\<close>; the client also sends the actions
  \<open>update\<close> and \<open>upsert\<close>). An object is its own enumerable properties in insertion
  order; \<open>id\<close> is absent, \<open>null\<close> or a string.
\<close>

datatype XDBAction = Insert | Find | Delete | Count | Update | Upsert | Snapshot | Exit

type_synonym 'v object = "(jsstring \<times> 'v) list"

record 'v XDBRequest =
  action :: XDBAction
  collection :: "jsstring option"
  data :: "'v object option"
  query :: "'v object option"
  limit :: "'v option"
  id :: "jsstring option option"

definition request :: "XDBAction \<Rightarrow> 'v XDBRequest" where
  "request a = \<lparr>action = a, collection = None, data = None, query = None, limit = None, id = None\<rparr>"

definition not_connected :: js_error where
  "not_connected = new_Error (js ''Client is not connected to XDB Server.'')"

text \<open>
  \<open>private sendCommand(payload)\<close>: the executor of the promise it returns, which runs at
  once. \<open>resolver\<close> is the \<open>{resolve, reject}\<close> pair of that promise. \<open>stringify\<close> is
  \<open>JSON.stringify\<close>: \<open>Inr\<close> the text, or \<open>Inl\<close> the error it throws (a \<open>BigInt\<close> or a
  cycle in the data). The resolver is pushed before the payload is serialised, so when
  \<open>JSON.stringify\<close> throws, the executor ends there: the promise is rejected with the
  thrown error, nothing is written, and the entry is in the queue.
\<close>

definition sendCommand ::
  "('v XDBRequest \<Rightarrow> js_error + jsstring) \<Rightarrow> 'r client \<Rightarrow> 'r \<Rightarrow> 'v XDBRequest
     \<Rightarrow> 'r client \<times> ('r, 'v) effect list" where
  "sendCommand stringify s resolver payload =
     (if \<not> isConnected s then (s, [Reject resolver not_connected])
      else
        (let s1 = s\<lparr>responseQueue := responseQueue s @ [resolver]\<rparr> in
         case stringify payload of
           Inl thrown \<Rightarrow> (s1, [Reject resolver thrown])
         | Inr text \<Rightarrow> (s1, [SocketWrite (text @ [NL])])))"

text \<open>
  \<open>update(collection, id, data)\<close>: \<open>const { _id, ...cleanData } = data\<close> copies every
  property but \<open>_id\<close>; \<open>cleanData\<close> is then an object, so \<open>payloadData\<close> is \<open>cleanData\<close>.
\<close>

definition rest_without_id :: "'v object \<Rightarrow> 'v object" where
  "rest_without_id obj = filter (\<lambda>(k, v). k \<noteq> js ''_id'') obj"

definition update ::
  "('v XDBRequest \<Rightarrow> js_error + jsstring) \<Rightarrow> 'r client \<Rightarrow> 'r \<Rightarrow> jsstring \<Rightarrow> jsstring \<Rightarrow> 'v object
     \<Rightarrow> 'r client \<times> ('r, 'v) effect list" where
  "update stringify s resolver coll ident dat =
     (let cleanData = rest_without_id dat; payloadData = cleanData in
      sendCommand stringify s resolver
        ((request Update)\<lparr>collection := Some coll, id := Some (Some ident), data := Some payloadData\<rparr>))"

section \<open>Socket events and observations\<close>

text \<open>
  The events of the socket that \<open>connect()\<close> listens to (\<open>connect\<close>, \<open>data\<close>, \<open>error\<close>,
  \<open>close\<close>). The socket calls the listeners of an event one after the other, in the order
  they were registered, each on the state the one before left: \<open>each_listener n\<close> runs a
  handler \<open>n\<close> times. A \<open>connect\<close> event runs the waiting callbacks and drops them; the
  other events run as many listeners as \<open>connect()\<close> was called. A run of the client over
  a sequence of events collects the effects in order.
\<close>

datatype socket_event = EvConnect | EvData buffer | EvError js_error | EvClose

fun each_listener :: "nat \<Rightarrow> ('s \<Rightarrow> 's \<times> 'e list) \<Rightarrow> 's \<Rightarrow> 's \<times> 'e list" where
  "each_listener 0 handler s = (s, [])"
| "each_listener (Suc n) handler s =
     (case handler s of
        (s1, out1) \<Rightarrow> (case each_listener n handler s1 of (s2, out2) \<Rightarrow> (s2, out1 @ out2)))"

fun on_event ::
  "(jsstring \<Rightarrow> 'v option) \<Rightarrow> 'r client \<Rightarrow> socket_event \<Rightarrow> 'r client \<times> ('r, 'v) effect list" where
  "on_event parse s EvConnect =
     (case each_listener (connecting s) on_connect s of
        (s1, out) \<Rightarrow> (s1\<lparr>connecting := 0\<rparr>, out))"
| "on_event parse s (EvData chunk) = each_listener (listeners s) (\<lambda>s. on_data parse s chunk) s"
| "on_event parse s (EvError err) = each_listener (listeners s) (\<lambda>s. on_error s err) s"
| "on_event parse s EvClose = each_listener (listeners s) on_close s"

fun run_events ::
  "(jsstring \<Rightarrow> 'v option) \<Rightarrow> 'r client \<Rightarrow> socket_event list \<Rightarrow> 'r client \<times> ('r, 'v) effect list" where
  "run_events parse s [] = (s, [])"
| "run_events parse s (ev # evs) =
     (case on_event parse s ev of
        (s1, out1) \<Rightarrow> (case run_events parse s1 evs of (s2, out2) \<Rightarrow> (s2, out1 @ out2)))"

text \<open>
  The life of a client: calls of \<open>connect()\<close>, dispatches through \<open>sendCommand\<close> (every
  public method ends there) and socket events, in the order they happen.
\<close>

datatype ('r, 'v) step = Connect | Send 'r "'v XDBRequest" | Socket socket_event

fun do_step ::
  "('v XDBRequest \<Rightarrow> js_error + jsstring) \<Rightarrow> (jsstring \<Rightarrow> 'v option) \<Rightarrow> 'r client \<Rightarrow> ('r, 'v) step
     \<Rightarrow> 'r client \<times> ('r, 'v) effect list" where
  "do_step stringify parse s Connect = connect s"
| "do_step stringify parse s (Send resolver payload) = sendCommand stringify s resolver payload"
| "do_step stringify parse s (Socket ev) = on_event parse s ev"

fun run ::
  "('v XDBRequest \<Rightarrow> js_error + jsstring) \<Rightarrow> (jsstring \<Rightarrow> 'v option) \<Rightarrow> 'r client
     \<Rightarrow> ('r, 'v) step list \<Rightarrow> 'r client \<times> ('r, 'v) effect list" where
  "run stringify parse s [] = (s, [])"
| "run stringify parse s (st # sts) =
     (case do_step stringify parse s st of
        (s1, out1) \<Rightarrow> (case run stringify parse s1 sts of (s2, out2) \<Rightarrow> (s2, out1 @ out2)))"

text \<open>
  The settlements among the effects, in order: which pending promise was settled, and with
  what (\<open>Inr\<close> a value for \<open>resolve\<close>, \<open>Inl\<close> an error for \<open>reject\<close>).
\<close>

fun settlement :: "('r, 'v) effect \<Rightarrow> ('r \<times> (js_error + 'v)) list" where
  "settlement (Resolve r v) = [(r, Inr v)]"
| "settlement (Reject r e) = [(r, Inl e)]"
| "settlement _ = []"

definition settlements :: "('r, 'v) effect list \<Rightarrow> ('r \<times> (js_error + 'v)) list" where
  "settlements out = concat (map settlement out)"

text \<open>
  The characters a run of events delivers to \<open>handleStreamData\<close>, and the number of
  answers in a run: the complete non-blank lines of the delivered characters (after what
  the buffer already holds) and the \<open>error\<close> events.
\<close>

fun delivered :: "socket_event \<Rightarrow> jsstring" where
  "delivered (EvData chunk) = toString chunk"
| "delivered _ = []"

fun is_error :: "socket_event \<Rightarrow> bool" where
  "is_error (EvError err) = True"
| "is_error _ = False"

definition blank :: "jsstring \<Rightarrow> bool" where
  "blank line \<longleftrightarrow> trim line = []"

definition complete_lines :: "jsstring \<Rightarrow> jsstring list" where
  "complete_lines text = filter (\<lambda>l. \<not> blank l) (butlast (split_nl text))"

definition answers :: "jsstring \<Rightarrow> socket_event list \<Rightarrow> nat" where
  "answers buf evs =
     length (complete_lines (buf @ concat (map delivered evs))) + length (filter is_error evs)"

section \<open>The framer and the correlator as the specification words them\<close>

text \<open>
  Stream Framer (specification, 4.2): append the chunk to the buffer, split on the newline,
  keep the final element as the new buffer, drop the elements that are blank after
  trimming, emit the others in order. The result is the emitted messages and the new
  buffer.
\<close>

definition frame :: "jsstring \<Rightarrow> jsstring \<Rightarrow> jsstring list \<times> jsstring" where
  "frame buf chunk =
     (let parts = split_nl (buf @ chunk)
      in (filter (\<lambda>l. \<not> blank l) (butlast parts), last parts))"

text \<open>
  Correlator (specification, 4.3), for one complete message: pop the oldest entry; with
  none, drop the message; otherwise resolve the entry with the parsed value, or fail it
  as malformed and log the raw text.
\<close>

definition correlate ::
  "(jsstring \<Rightarrow> 'v option) \<Rightarrow> 'r list \<Rightarrow> jsstring \<Rightarrow> 'r list \<times> ('r, 'v) effect list" where
  "correlate parse queue msg =
     (case queue of
        [] \<Rightarrow> ([], [])
      | oldest # others \<Rightarrow>
          (others,
           case parse msg of
             Some v \<Rightarrow> [Resolve oldest v]
           | None \<Rightarrow> [Log ERROR (js ''Protocol violation: Malformed JSON received.'') (Some msg),
                      Reject oldest malformed_json]))"

fun correlate_all ::
  "(jsstring \<Rightarrow> 'v option) \<Rightarrow> 'r list \<Rightarrow> jsstring list \<Rightarrow> 'r list \<times> ('r, 'v) effect list" where
  "correlate_all parse queue [] = (queue, [])"
| "correlate_all parse queue (msg # msgs) =
     (case correlate parse queue msg of
        (q1, out1) \<Rightarrow> (case correlate_all parse q1 msgs of (q2, out2) \<Rightarrow> (q2, out1 @ out2)))"

section \<open>Splitting on the newline\<close>

lemma split_nl_not_Nil: "split_nl s \<noteq> []"
  by (induction s) auto

lemma split_nl_Cons:
  "split_nl cs = x # xs \<Longrightarrow>
   split_nl (c # cs) = (if c = NL then [] # x # xs else (c # x) # xs)"
  by simp

lemma split_nl_no_NL: "l \<in> set (split_nl s) \<Longrightarrow> NL \<notin> set l"
proof (induction s arbitrary: l)
  case Nil
  then show ?case by simp
next
  case (Cons c cs)
  obtain x xs where r: "split_nl cs = x # xs"
    using split_nl_not_Nil [of cs] by (cases "split_nl cs") auto
  have x: "NL \<notin> set x" using Cons.IH [of x] r by simp
  have xs: "\<And>y. y \<in> set xs \<Longrightarrow> NL \<notin> set y" using Cons.IH r by simp
  from Cons.prems show ?case
    unfolding split_nl_Cons [OF r] using x xs by (auto split: if_splits)
qed

lemma split_nl_line: "NL \<notin> set l \<Longrightarrow> split_nl (l @ NL # rest) = l # split_nl rest"
  by (induction l) auto

lemma split_nl_single: "NL \<notin> set l \<Longrightarrow> split_nl l = [l]"
  by (induction l) auto

lemma split_nl_append:
  "split_nl (a @ b) = butlast (split_nl a) @ split_nl (last (split_nl a) @ b)"
proof (induction a)
  case Nil
  then show ?case by simp
next
  case (Cons c cs)
  obtain x xs where r: "split_nl cs = x # xs"
    using split_nl_not_Nil [of cs] by (cases "split_nl cs") auto
  obtain y ys where t: "split_nl (last (x # xs) @ b) = y # ys"
    using split_nl_not_Nil [of "last (x # xs) @ b"] by (cases "split_nl (last (x # xs) @ b)") auto
  have IH: "split_nl (cs @ b) = butlast (x # xs) @ y # ys"
    using Cons.IH r t by simp
  show ?case
  proof (cases xs)
    case Nil
    with IH t have "split_nl (cs @ b) = y # ys" and t': "split_nl (x @ b) = y # ys" by simp_all
    then show ?thesis using r Nil by (simp add: split_nl_Cons [OF r])
  next
    case (Cons z zs)
    with IH have "split_nl (cs @ b) = x # (butlast (z # zs) @ y # ys)" by simp
    then show ?thesis using r Cons t by simp
  qed
qed

lemma pop_split_nl: "pop (split_nl t) = (Some (last (split_nl t)), butlast (split_nl t))"
  using split_nl_not_Nil [of t] by (cases "split_nl t") (simp_all add: pop_def)

section \<open>The loop of handleStreamData and the correlator\<close>

lemma handle_line_correlate:
  "handle_line parse s line =
     (if blank line then (s, [])
      else case correlate parse (responseQueue s) line of
             (q, out) \<Rightarrow> (s\<lparr>responseQueue := q\<rparr>, out))"
  by (cases "responseQueue s")
     (auto simp: handle_line_def correlate_def shift_def blank_def log_def split: option.splits)

lemma for_lines_correlate:
  "for_lines parse s lines =
     (case correlate_all parse (responseQueue s) (filter (\<lambda>l. \<not> blank l) lines) of
        (q, out) \<Rightarrow> (s\<lparr>responseQueue := q\<rparr>, out))"
proof (induction lines arbitrary: s)
  case Nil
  show ?case by simp
next
  case (Cons l ls)
  show ?case
    by (simp add: handle_line_correlate Cons.IH split: prod.splits)
qed

lemma handleStreamData_frame:
  "handleStreamData parse s chunk =
     (case frame (streamBuffer s) chunk of
        (msgs, buf) \<Rightarrow>
          (case correlate_all parse (responseQueue s) msgs of
             (q, out) \<Rightarrow> (s\<lparr>streamBuffer := buf, responseQueue := q\<rparr>, out)))"
  by (simp add: handleStreamData_def frame_def Let_def pop_split_nl for_lines_correlate
           split: prod.splits)

lemma streamBuffer_handleStreamData:
  "streamBuffer (fst (handleStreamData parse s chunk)) = last (split_nl (streamBuffer s @ chunk))"
  by (simp add: handleStreamData_frame frame_def Let_def split: prod.splits)

section \<open>Framing\<close>

text \<open>
  Claim C2. For every prior buffer and every inbound chunk, \<open>handleStreamData\<close> does what
  the specification's framer and correlator say: it appends the chunk to the buffer and
  splits on the newline; the final element of the split, and nothing else, becomes the new
  buffer and is never handed on as a message; of the other elements those that are empty
  or blank after trimming are dropped without any effect, and the rest are handled as
  complete messages in their order, each against the oldest pending entry.
\<close>

theorem handleStreamData_refines_framer:
  "handleStreamData parse s chunk =
     (let parts = split_nl (streamBuffer s @ chunk);
          msgs = filter (\<lambda>l. trim l \<noteq> []) (butlast parts);
          (q, out) = correlate_all parse (responseQueue s) msgs
      in (s\<lparr>streamBuffer := last parts, responseQueue := q\<rparr>, out))"
  by (simp add: handleStreamData_frame frame_def blank_def Let_def split: prod.splits)

text \<open>
  Claim C10. After every call of \<open>handleStreamData\<close>, whatever the buffer held before and
  whatever the chunk, the buffer that is kept holds no newline: no complete line stays
  behind unprocessed.
\<close>

theorem streamBuffer_has_no_newline:
  "NL \<notin> set (streamBuffer (fst (handleStreamData parse s chunk)))"
proof -
  have "last (split_nl (streamBuffer s @ chunk)) \<in> set (split_nl (streamBuffer s @ chunk))"
    using split_nl_not_Nil by (rule last_in_set)
  then have "NL \<notin> set (last (split_nl (streamBuffer s @ chunk)))"
    by (rule split_nl_no_NL)
  then show ?thesis
    by (simp add: streamBuffer_handleStreamData)
qed

section \<open>Transport errors and close\<close>

lemma settlements_Nil [simp]: "settlements [] = []"
  by (simp add: settlements_def)

lemma settlements_Cons [simp]: "settlements (e # es) = settlement e @ settlements es"
  by (simp add: settlements_def)

lemma settlements_append [simp]: "settlements (xs @ ys) = settlements xs @ settlements ys"
  by (simp add: settlements_def)







section \<open>Dispatch\<close>

text \<open>
  Claim C5. A dispatch while the client is not connected rejects the returned promise at
  once with the not-connected error and does nothing else: the state that comes back is
  the state that went in (queue, buffer and flag), and no write reaches the socket. The
  same holds through the public method \<open>update\<close>.
\<close>

theorem not_connected_dispatch_fails:
  "\<not> isConnected s \<Longrightarrow>
     sendCommand stringify s resolver payload = (s, [Reject resolver not_connected])
   \<and> update stringify s resolver coll ident dat = (s, [Reject resolver not_connected])
   \<and> message not_connected = js ''Client is not connected to XDB Server.''"
  by (simp add: sendCommand_def update_def Let_def not_connected_def new_Error_def)

theorem not_connected_dispatch_fails_witness:
  "\<not> isConnected (constructor None :: nat client)
   \<and> sendCommand (\<lambda>p. Inr (js ''{}'')) (constructor None :: nat client) 7 (request Count :: unit XDBRequest)
       = (constructor None, [Reject 7 not_connected])"
  using not_connected_dispatch_fails
    [of "constructor None :: nat client" "\<lambda>p. Inr (js ''{}'')" 7 "request Count :: unit XDBRequest"]
  by (simp add: constructor_def)

text \<open>
  Claim C9. \<open>update(collection, id, data)\<close> hands \<open>sendCommand\<close> the request with action
  \<open>update\<close>, the collection, the id and a data object that is the caller's data without
  its \<open>_id\<close> property: the data object that is serialised has no \<open>_id\<close> property of its
  own and keeps every other property. On a connected client the one effect is the write
  of that request, serialised, and a newline; when \<open>JSON.stringify\<close> throws instead,
  nothing is written and the one effect is the rejection with the thrown error.
\<close>

theorem update_strips_id:
  "update stringify s resolver coll ident dat =
     sendCommand stringify s resolver
       \<lparr>action = Update, collection = Some coll, data = Some (rest_without_id dat),
        query = None, limit = None, id = Some (Some ident)\<rparr>
   \<and> js ''_id'' \<notin> fst ` set (rest_without_id dat)
   \<and> set (rest_without_id dat) = {p \<in> set dat. fst p \<noteq> js ''_id''}
   \<and> (isConnected s \<longrightarrow>
        snd (update stringify s resolver coll ident dat) =
          (case stringify \<lparr>action = Update, collection = Some coll, data = Some (rest_without_id dat),
                           query = None, limit = None, id = Some (Some ident)\<rparr> of
             Inr text \<Rightarrow> [SocketWrite (text @ [NL])]
           | Inl thrown \<Rightarrow> [Reject resolver thrown]))"
  by (auto simp: update_def Let_def request_def rest_without_id_def sendCommand_def case_prod_beta
           split: sum.splits)

theorem update_strips_id_witness:
  "isConnected ((constructor None)\<lparr>listeners := 1, isConnected := True\<rparr> :: nat client)
   \<and> update (\<lambda>p. Inr (js ''{}'')) ((constructor None)\<lparr>listeners := 1, isConnected := True\<rparr>) (1::nat) (js ''users'') (js ''id123'')
         [(js ''_id'', 0::nat), (js ''status'', 1)]
     = ((constructor None)\<lparr>listeners := 1, isConnected := True, responseQueue := [1]\<rparr>, [SocketWrite (js ''{}'' @ [NL])])
   \<and> rest_without_id [(js ''_id'', 0::nat), (js ''status'', 1)] = [(js ''status'', 1)]"
  using update_strips_id
    [of "\<lambda>p. Inr (js ''{}'')" "(constructor None)\<lparr>listeners := 1, isConnected := True\<rparr> :: nat client" 1 "js ''users''" "js ''id123''"
        "[(js ''_id'', 0::nat), (js ''status'', 1)]"]
  by (simp add: constructor_def sendCommand_def rest_without_id_def js_def)

section \<open>Malformed lines\<close>

lemma butlast_split_nl_line:
  "NL \<notin> set l \<Longrightarrow> butlast (split_nl (l @ NL # rest)) = l # butlast (split_nl rest)"
  by (simp add: split_nl_line split_nl_not_Nil)

lemma last_split_nl_line:
  "NL \<notin> set l \<Longrightarrow> last (split_nl (l @ NL # rest)) = last (split_nl rest)"
  by (simp add: split_nl_line split_nl_not_Nil)

lemma frame_line:
  "NL \<notin> set l \<Longrightarrow> buf @ chunk = l @ NL # rest \<Longrightarrow>
   frame buf chunk =
     (if blank l then fst (frame [] rest) else l # fst (frame [] rest), snd (frame [] rest))"
  by (simp add: frame_def Let_def butlast_split_nl_line last_split_nl_line)

text \<open>
  Claim C6. Let the buffer followed by the chunk start with a complete line that is not
  blank and that \<open>JSON.parse\<close> refuses, and let an entry be pending. Then
  \<open>handleStreamData\<close> pops the oldest entry only and rejects it with the error
  \<open>Critical: Malformed JSON received.\<close>, an error of the client's own making that is not
  the not-connected error (a transport error is the socket's own error object, handed on
  as it is); it logs the raw line at level \<open>ERROR\<close>; and everything after that line is
  handled exactly as a client with an empty buffer and the remaining entries handles it, so
  the buffer kept for later messages is what the rest of the stream alone determines.
\<close>

theorem malformed_line_fails_oldest:
  "responseQueue s = oldest # others \<Longrightarrow> streamBuffer s @ chunk = bad @ NL # rest \<Longrightarrow>
   NL \<notin> set bad \<Longrightarrow> trim bad \<noteq> [] \<Longrightarrow> parse bad = None \<Longrightarrow>
     handleStreamData parse s chunk =
       (case handleStreamData parse (s\<lparr>streamBuffer := [], responseQueue := others\<rparr>) rest of
          (s', out) \<Rightarrow>
            (s', Log ERROR (js ''Protocol violation: Malformed JSON received.'') (Some bad)
                 # Reject oldest malformed_json # out))
   \<and> malformed_json = \<lparr>message = js ''Critical: Malformed JSON received.'', code = None\<rparr>
   \<and> malformed_json \<noteq> not_connected"
proof -
  assume q: "responseQueue s = oldest # others"
    and b: "streamBuffer s @ chunk = bad @ NL # rest"
    and n: "NL \<notin> set bad" and t: "trim bad \<noteq> []" and p: "parse bad = None"
  have f: "frame (streamBuffer s) chunk = (bad # fst (frame [] rest), snd (frame [] rest))"
    using frame_line [OF n b] t by (simp add: blank_def)
  have "handleStreamData parse s chunk =
       (case handleStreamData parse (s\<lparr>streamBuffer := [], responseQueue := others\<rparr>) rest of
          (s', out) \<Rightarrow>
            (s', Log ERROR (js ''Protocol violation: Malformed JSON received.'') (Some bad)
                 # Reject oldest malformed_json # out))"
    by (simp add: handleStreamData_frame f q p correlate_def split: prod.splits)
  moreover have "malformed_json = \<lparr>message = js ''Critical: Malformed JSON received.'', code = None\<rparr>"
    by (simp add: malformed_json_def new_Error_def)
  moreover have "malformed_json \<noteq> not_connected"
    by (simp add: malformed_json_def not_connected_def new_Error_def js_def)
  ultimately show ?thesis by simp
qed

theorem malformed_line_fails_oldest_witness:
  "handleStreamData (\<lambda>l. if l = js ''{}'' then Some () else None)
     ((constructor None)\<lparr>listeners := 1, isConnected := True, responseQueue := [1, 2 :: nat], streamBuffer := js ''NOT_''\<rparr>)
     (js ''JSON'' @ [NL] @ js ''{}'' @ [NL] @ js ''{'')
   = ((constructor None)\<lparr>listeners := 1, isConnected := True, responseQueue := [], streamBuffer := js ''{''\<rparr>,
      [Log ERROR (js ''Protocol violation: Malformed JSON received.'') (Some (js ''NOT_JSON'')),
       Reject 1 malformed_json, Resolve 2 ()])"
proof -
  let ?parse = "\<lambda>l. if l = js ''{}'' then Some () else None"
  let ?s = "(constructor None)\<lparr>listeners := 1, isConnected := True, responseQueue := [1, 2 :: nat], streamBuffer := js ''NOT_''\<rparr>"
  have q: "responseQueue ?s = 1 # [2]"
    by simp
  have b: "streamBuffer ?s @ (js ''JSON'' @ [NL] @ js ''{}'' @ [NL] @ js ''{'')
             = js ''NOT_JSON'' @ NL # (js ''{}'' @ [NL] @ js ''{'')"
    by (simp add: js_def)
  have n: "NL \<notin> set (js ''NOT_JSON'')"
    by code_simp
  have t: "trim (js ''NOT_JSON'') \<noteq> []"
    by code_simp
  have p: "?parse (js ''NOT_JSON'') = None"
    by code_simp
  have r: "handleStreamData ?parse (?s\<lparr>streamBuffer := [], responseQueue := [2]\<rparr>)
             (js ''{}'' @ [NL] @ js ''{'')
           = ((constructor None)\<lparr>listeners := 1, isConnected := True, responseQueue := [], streamBuffer := js ''{''\<rparr>,
              [Resolve 2 ()])"
    by code_simp
  show ?thesis
    using malformed_line_fails_oldest [where parse = "?parse", OF q b n t p] r by simp
qed

section \<open>Every answer settles one entry, on a client that called connect() once\<close>

lemma correlate_settles:
  "correlate parse q msg = (q', out) \<Longrightarrow>
     map fst (settlements out) @ q' = q \<and> length q' = length q - 1"
  by (cases q; cases "parse msg") (auto simp: correlate_def)

lemma correlate_all_settles:
  "correlate_all parse q msgs = (q', out) \<Longrightarrow>
     map fst (settlements out) @ q' = q \<and> length q' = length q - length msgs"
proof (induction msgs arbitrary: q q' out)
  case Nil
  then show ?case by simp
next
  case (Cons m ms)
  obtain q1 out1 where c: "correlate parse q m = (q1, out1)"
    by (cases "correlate parse q m")
  obtain q2 out2 where r: "correlate_all parse q1 ms = (q2, out2)"
    by (cases "correlate_all parse q1 ms")
  from Cons.prems c r have e: "q' = q2" "out = out1 @ out2" by simp_all
  from correlate_settles [OF c] Cons.IH [OF r] e show ?case by auto
qed

lemma handleStreamData_settles:
  "handleStreamData parse s chunk = (s', out) \<Longrightarrow>
     map fst (settlements out) @ responseQueue s' = responseQueue s
   \<and> length (responseQueue s') =
       length (responseQueue s) - length (complete_lines (streamBuffer s @ chunk))
   \<and> streamBuffer s' = last (split_nl (streamBuffer s @ chunk))"
proof -
  assume h: "handleStreamData parse s chunk = (s', out)"
  obtain q o' where c: "correlate_all parse (responseQueue s) (fst (frame (streamBuffer s) chunk)) = (q, o')"
    by (cases "correlate_all parse (responseQueue s) (fst (frame (streamBuffer s) chunk))")
  from h c have "s' = s\<lparr>streamBuffer := snd (frame (streamBuffer s) chunk), responseQueue := q\<rparr>" "out = o'"
    by (simp_all add: handleStreamData_frame split: prod.splits)
  with correlate_all_settles [OF c] show ?thesis
    by (simp add: frame_def complete_lines_def Let_def)
qed

lemma complete_lines_append:
  "complete_lines (a @ b) = complete_lines a @ complete_lines (last (split_nl a) @ b)"
proof -
  have "butlast (split_nl (a @ b)) = butlast (split_nl a) @ butlast (split_nl (last (split_nl a) @ b))"
    by (subst split_nl_append) (simp add: butlast_append split_nl_not_Nil)
  then show ?thesis by (simp add: complete_lines_def)
qed

lemma answers_Nil: "answers buf [] = length (complete_lines buf)"
  by (simp add: answers_def)

lemma answers_data:
  "answers buf (EvData chunk # evs) =
     length (complete_lines (buf @ toString chunk))
     + answers (last (split_nl (buf @ toString chunk))) evs"
proof -
  have "complete_lines (buf @ toString chunk @ concat (map delivered evs)) =
        complete_lines (buf @ toString chunk)
        @ complete_lines (last (split_nl (buf @ toString chunk)) @ concat (map delivered evs))"
    using complete_lines_append [of "buf @ toString chunk" "concat (map delivered evs)"] by simp
  then show ?thesis by (simp add: answers_def)
qed

lemma answers_error: "answers buf (EvError err # evs) = Suc (answers buf evs)"
  by (simp add: answers_def)

lemma answers_connect: "answers buf (EvConnect # evs) = answers buf evs"
  by (simp add: answers_def)

lemma answers_close: "answers buf (EvClose # evs) = answers buf evs"
  by (simp add: answers_def)

lemma on_error_settles:
  "on_error s err = (s', out) \<Longrightarrow>
     map fst (settlements out) @ responseQueue s' = responseQueue s
   \<and> length (responseQueue s') = length (responseQueue s) - 1
   \<and> streamBuffer s' = streamBuffer s \<and> listeners s' = listeners s"
  by (cases "responseQueue s") (auto simp: on_error_def Let_def shift_def log_def)

lemma on_connect_settles:
  "on_connect s = (s', out) \<Longrightarrow>
     settlements out = [] \<and> responseQueue s' = responseQueue s
   \<and> streamBuffer s' = streamBuffer s \<and> listeners s' = listeners s"
  by (auto simp: on_connect_def log_def)

lemma on_close_settles:
  "on_close s = (s', out) \<Longrightarrow>
     settlements out = [] \<and> responseQueue s' = responseQueue s
   \<and> streamBuffer s' = streamBuffer s \<and> listeners s' = listeners s"
  by (auto simp: on_close_def)

lemma listeners_handleStreamData:
  "listeners (fst (handleStreamData parse s chunk)) = listeners s"
  by (simp add: handleStreamData_frame split: prod.splits)

lemma each_listener_one: "each_listener (Suc 0) handler s = handler s"
  by (simp split: prod.splits)

lemma each_on_connect_settles:
  "each_listener n on_connect s = (s', out :: ('r, 'v) effect list) \<Longrightarrow>
     settlements out = [] \<and> responseQueue s' = responseQueue s
   \<and> streamBuffer s' = streamBuffer s \<and> listeners s' = listeners s"
proof (induction n arbitrary: s s' out)
  case 0
  then show ?case by simp
next
  case (Suc n)
  obtain s1 and out1 :: "('r, 'v) effect list" where c: "on_connect s = (s1, out1)"
    by (cases "on_connect s :: 'r client \<times> ('r, 'v) effect list")
  obtain s2 and out2 :: "('r, 'v) effect list" where r: "each_listener n on_connect s1 = (s2, out2)"
    by (cases "each_listener n on_connect s1 :: 'r client \<times> ('r, 'v) effect list")
  from Suc.prems c r have "s' = s2" "out = out1 @ out2" by simp_all
  with on_connect_settles [OF c] Suc.IH [OF r] show ?case by simp
qed

lemma no_complete_lines: "NL \<notin> set buf \<Longrightarrow> complete_lines buf = []"
  by (simp add: complete_lines_def split_nl_single)

lemma run_events_settles:
  "run_events parse s evs = (s', out :: ('r, 'v) effect list) \<Longrightarrow> listeners s = Suc 0 \<Longrightarrow>
   NL \<notin> set (streamBuffer s) \<Longrightarrow>
     map fst (settlements out) @ responseQueue s' = responseQueue s
   \<and> length (responseQueue s') = length (responseQueue s) - answers (streamBuffer s) evs
   \<and> NL \<notin> set (streamBuffer s')"
proof (induction evs arbitrary: s s' out)
  case Nil
  then show ?case by (simp add: answers_Nil no_complete_lines)
next
  case (Cons ev evs)
  obtain s1 out1 where e: "on_event parse s ev = (s1, out1)"
    by (cases "on_event parse s ev")
  obtain s2 out2 where r: "run_events parse s1 evs = (s2, out2)"
    by (cases "run_events parse s1 evs")
  from Cons.prems(1) e r have eq: "s' = s2" "out = out1 @ out2" by simp_all
  note one = Cons.prems(2)
  show ?case
  proof (cases ev)
    case EvConnect
    obtain s0 where c: "each_listener (connecting s) on_connect s = (s0, out1)"
      and s1: "s1 = s0\<lparr>connecting := 0\<rparr>"
      using e EvConnect
      by (cases "each_listener (connecting s) on_connect s :: 'r client \<times> ('r, 'v) effect list") auto
    from each_on_connect_settles [OF c] s1 Cons.prems(3) one
    have b: "NL \<notin> set (streamBuffer s1)" and l: "listeners s1 = Suc 0"
      and k: "settlements out1 = []" "responseQueue s1 = responseQueue s" "streamBuffer s1 = streamBuffer s"
      by simp_all
    from Cons.IH [OF r l b] k eq EvConnect show ?thesis by (simp add: answers_connect)
  next
    case (EvData chunk)
    with e one have h: "handleStreamData parse s (toString chunk) = (s1, out1)"
      by (simp add: on_data_def each_listener_one)
    note k = handleStreamData_settles [OF h]
    have l: "listeners s1 = Suc 0"
      using listeners_handleStreamData [of parse s "toString chunk"] h one by simp
    have "last (split_nl (streamBuffer s @ toString chunk)) \<in> set (split_nl (streamBuffer s @ toString chunk))"
      using split_nl_not_Nil by (rule last_in_set)
    then have b: "NL \<notin> set (streamBuffer s1)" using k split_nl_no_NL by simp
    from Cons.IH [OF r l b] k eq EvData show ?thesis by (simp add: answers_data)
  next
    case (EvError err)
    with e one have "on_error s err = (s1, out1)" by (simp add: each_listener_one)
    note k = on_error_settles [OF this]
    with Cons.prems(3) one have b: "NL \<notin> set (streamBuffer s1)" and l: "listeners s1 = Suc 0"
      by simp_all
    from Cons.IH [OF r l b] k eq EvError show ?thesis by (simp add: answers_error)
  next
    case EvClose
    with e one have "on_close s = (s1, out1)" by (simp add: each_listener_one)
    from on_close_settles [OF this] Cons.prems(3) one
    have b: "NL \<notin> set (streamBuffer s1)" and l: "listeners s1 = Suc 0"
      and k: "settlements out1 = []" "responseQueue s1 = responseQueue s" "streamBuffer s1 = streamBuffer s"
      by simp_all
    from Cons.IH [OF r l b] k eq EvClose show ?thesis by (simp add: answers_close)
  qed
qed

text \<open>
  On a client that called \<open>connect()\<close> once and whose buffer holds no complete line, take
  any run of socket events: data in any chunking, carrying well-formed and malformed lines,
  \<open>error\<close> events, \<open>close\<close>. The answers of the run are its complete non-blank lines and
  its \<open>error\<close> events. The settlements of the run are then those of the oldest entries, as
  many as there are answers, one each and in queue order, and the entries behind them are
  still queued.
\<close>

lemma one_listener_settles_answered:
  assumes "listeners s = Suc 0" and "NL \<notin> set (streamBuffer s)"
    and "run_events parse s evs = (s', out)"
  shows "map fst (settlements out) = take (answers (streamBuffer s) evs) (responseQueue s)"
    and "responseQueue s' = drop (answers (streamBuffer s) evs) (responseQueue s)"
proof -
  let ?k = "answers (streamBuffer s) evs"
  from run_events_settles [OF assms(3,1,2)]
  have c: "map fst (settlements out) @ responseQueue s' = responseQueue s"
    and l: "length (responseQueue s') = length (responseQueue s) - ?k"
    by simp_all
  from c have "length (map fst (settlements out)) + length (responseQueue s') = length (responseQueue s)"
    by (metis length_append)
  with l have n: "length (map fst (settlements out)) = min ?k (length (responseQueue s))"
    by simp
  have "take ?k (responseQueue s) = take (min ?k (length (responseQueue s))) (responseQueue s)"
    by (simp add: min_def)
  also have "\<dots> = take (length (map fst (settlements out))) (map fst (settlements out) @ responseQueue s')"
    using n c by simp
  also have "\<dots> = map fst (settlements out)"
    by simp
  finally show "map fst (settlements out) = take ?k (responseQueue s)" by simp
  have "drop ?k (responseQueue s) = drop (min ?k (length (responseQueue s))) (responseQueue s)"
    by (simp add: min_def)
  also have "\<dots> = drop (length (map fst (settlements out))) (map fst (settlements out) @ responseQueue s')"
    using n c by simp
  also have "\<dots> = responseQueue s'"
    by simp
  finally show "responseQueue s' = drop ?k (responseQueue s)" by simp
qed

text \<open>
  So when such a run holds at least as many answers as entries are pending, every pending
  entry is settled in it, once, and the queue ends empty.
\<close>

lemma one_listener_settles_all:
  assumes "listeners s = Suc 0" and "NL \<notin> set (streamBuffer s)"
    and "run_events parse s evs = (s', out)"
    and "length (responseQueue s) \<le> answers (streamBuffer s) evs"
  shows "map fst (settlements out) = responseQueue s" and "responseQueue s' = []"
  using one_listener_settles_answered [OF assms(1-3)] assms(4) by simp_all

section \<open>Entries that are not settled once\<close>

text \<open>
  A client that connects again after a \<open>close\<close> has two listeners for every event. Two
  commands are pending and one response line arrives: the first listener resolves the first
  entry with it, the second listener appends the same chunk to the buffer again and
  resolves the second entry with the same line.
\<close>

lemma second_connect_doubles_every_event:
  "stringify pa = Inr ta \<Longrightarrow> stringify pb = Inr tb \<Longrightarrow> parse (js ''{}'') = Some v \<Longrightarrow>
     run stringify parse (constructor None)
       [Connect, Socket EvConnect, Socket EvClose, Connect, Socket EvConnect,
        Send (a :: 'r) pa, Send b pb, Socket (EvData (ascii ''{}'' @ [0x0A]))]
     = ((constructor None)\<lparr>isConnected := True, listeners := 2\<rparr>,
        [SocketConnect FIXED_PORT DEFAULT_HOST,
         Log INFO (js ''Connection established to '' @ DEFAULT_HOST @ js '':'' @ digits FIXED_PORT) None,
         ConnectResolve,
         SocketConnect FIXED_PORT DEFAULT_HOST,
         Log INFO (js ''Connection established to '' @ DEFAULT_HOST @ js '':'' @ digits FIXED_PORT) None,
         ConnectResolve,
         SocketWrite (ta @ [NL]),
         SocketWrite (tb @ [NL]),
         Resolve a v,
         Resolve b v])"
proof -
  assume pa: "stringify pa = Inr ta" and pb: "stringify pb = Inr tb"
    and p: "parse (js ''{}'') = Some v"
  have t: "toString (ascii ''{}'' @ [0x0A]) = js ''{}'' @ [NL]"
    by code_simp
  have n: "NL \<notin> set (js ''{}'')"
    by code_simp
  have nb: "\<not> blank (js ''{}'')"
    by code_simp
  have f: "frame [] (js ''{}'' @ [NL]) = ([js ''{}''], [])"
    using n nb by (simp add: frame_def Let_def split_nl_line)
  show ?thesis
    by (simp add: connect_def on_connect_def on_close_def log_def constructor_def sendCommand_def
          pa pb on_data_def handleStreamData_frame t f correlate_def p)
qed

text \<open>
  Claim C8 says that every pending entry is resolved or failed exactly once, never zero
  times and never twice. \<open>sendCommand\<close> pushes the resolver before it serialises the
  payload, so a payload that \<open>JSON.stringify\<close> refuses leaves in the queue an entry whose
  promise is rejected already and whose request was never written. Here a client connects
  once and dispatches two commands: the first payload cannot be serialised, the second is
  written. The server answers the one request it received with one well-formed line. The
  line goes to the oldest entry, the one of the first command, which was failed at dispatch
  and is now resolved as well; the entry of the second command, whose response this was,
  stays in the queue and is settled zero times.
\<close>

theorem unserialisable_dispatch_starves_next:
  "stringify pa = Inl thrown \<Longrightarrow> stringify pb = Inr text \<Longrightarrow> parse (js ''{}'') = Some v \<Longrightarrow>
     run stringify parse (constructor None)
       [Connect, Socket EvConnect, Send (a :: 'r) pa, Send b pb, Socket (EvData (ascii ''{}'' @ [0x0A]))]
     = ((constructor None)\<lparr>isConnected := True, responseQueue := [b], listeners := 1\<rparr>,
        [SocketConnect FIXED_PORT DEFAULT_HOST,
         Log INFO (js ''Connection established to '' @ DEFAULT_HOST @ js '':'' @ digits FIXED_PORT) None,
         ConnectResolve,
         Reject a thrown,
         SocketWrite (text @ [NL]),
         Resolve a v])"
proof -
  assume pa: "stringify pa = Inl thrown" and pb: "stringify pb = Inr text"
    and p: "parse (js ''{}'') = Some v"
  have t: "toString (ascii ''{}'' @ [0x0A]) = js ''{}'' @ [NL]"
    by code_simp
  have n: "NL \<notin> set (js ''{}'')"
    by code_simp
  have nb: "\<not> blank (js ''{}'')"
    by code_simp
  have f: "frame [] (js ''{}'' @ [NL]) = ([js ''{}''], [])"
    using n nb by (simp add: frame_def Let_def split_nl_line)
  show ?thesis
    by (simp add: connect_def on_connect_def log_def constructor_def sendCommand_def pa pb
          on_data_def handleStreamData_frame t f correlate_def p)
qed

theorem unserialisable_dispatch_starves_next_witness:
  "run (\<lambda>p. if action p = Insert then Inl (new_Error (js ''Do not know how to serialize a BigInt''))
             else Inr (js ''{}''))
       (\<lambda>l. if l = js ''{}'' then Some () else None)
       (constructor None)
       [Connect, Socket EvConnect, Send (1::nat) (request Insert), Send 2 (request Count),
        Socket (EvData (ascii ''{}'' @ [0x0A]))]
     = ((constructor None)\<lparr>isConnected := True, responseQueue := [2], listeners := 1\<rparr>,
        [SocketConnect 8080 (js ''127.0.0.1''),
         Log INFO (js ''Connection established to 127.0.0.1:8080'') None,
         ConnectResolve,
         Reject 1 (new_Error (js ''Do not know how to serialize a BigInt'')),
         SocketWrite (js ''{}'' @ [NL]),
         Resolve 1 ()])"
proof -
  let ?stringify = "\<lambda>p :: unit XDBRequest.
     if action p = Insert then Inl (new_Error (js ''Do not know how to serialize a BigInt''))
     else Inr (js ''{}'')"
  let ?parse = "\<lambda>l. if l = js ''{}'' then Some () else None"
  have pa: "?stringify (request Insert) = Inl (new_Error (js ''Do not know how to serialize a BigInt''))"
    by (simp add: request_def)
  have pb: "?stringify (request Count) = Inr (js ''{}'')"
    by (simp add: request_def)
  have p: "?parse (js ''{}'') = Some ()"
    by simp
  have h: "DEFAULT_HOST = js ''127.0.0.1''" "FIXED_PORT = 8080"
    by (simp_all add: DEFAULT_HOST_def FIXED_PORT_def)
  have m: "js ''Connection established to '' @ js ''127.0.0.1'' @ js '':'' @ digits 8080
             = js ''Connection established to 127.0.0.1:8080''"
    by (simp add: js_def)
  show ?thesis
    by (simp only: unserialisable_dispatch_starves_next
          [where stringify = "?stringify" and parse = "?parse" and a = "1::nat" and b = 2, OF pa pb p]
          h m)
qed

section \<open>Responses in dispatch order\<close>

text \<open>
  Delivering a text in two calls of \<open>handleStreamData\<close> is delivering it in one: the
  split of the characters into chunks does not matter.
\<close>

lemma correlate_all_append:
  "correlate_all parse q (xs @ ys) =
     (case correlate_all parse q xs of
        (q1, out1) \<Rightarrow> (case correlate_all parse q1 ys of (q2, out2) \<Rightarrow> (q2, out1 @ out2)))"
  by (induction xs arbitrary: q) (simp_all split: prod.splits)

lemma frame_append:
  "frame buf (a @ b) =
     (fst (frame buf a) @ fst (frame (snd (frame buf a)) b), snd (frame (snd (frame buf a)) b))"
proof -
  have l: "last (split_nl (buf @ a @ b)) = last (split_nl (last (split_nl (buf @ a)) @ b))"
    using split_nl_append [of "buf @ a" b] by (simp add: split_nl_not_Nil)
  have c: "complete_lines (buf @ a @ b)
           = complete_lines (buf @ a) @ complete_lines (last (split_nl (buf @ a)) @ b)"
    using complete_lines_append [of "buf @ a" b] by simp
  show ?thesis
    using l c by (simp add: frame_def Let_def complete_lines_def)
qed

lemma handleStreamData_append:
  "handleStreamData parse s (a @ b) =
     (case handleStreamData parse s a of
        (s1, out1) \<Rightarrow> (case handleStreamData parse s1 b of (s2, out2) \<Rightarrow> (s2, out1 @ out2)))"
  by (simp add: handleStreamData_frame frame_append [of "streamBuffer s" a b] correlate_all_append
           split: prod.splits)

lemma handleStreamData_empty:
  "NL \<notin> set (streamBuffer s) \<Longrightarrow> handleStreamData parse s [] = (s, [])"
  by (simp add: handleStreamData_frame frame_def Let_def split_nl_single)

lemma data_one_listener:
  "listeners s = Suc 0 \<Longrightarrow>
   on_event parse s (EvData chunk) = handleStreamData parse s (toString chunk)"
  by (simp add: on_data_def each_listener_one)

lemma run_data_fused:
  "listeners s = Suc 0 \<Longrightarrow> NL \<notin> set (streamBuffer s) \<Longrightarrow>
   run_events parse s (map EvData chunks) = handleStreamData parse s (concat (map toString chunks))"
proof (induction chunks arbitrary: s)
  case Nil
  then show ?case by (simp add: handleStreamData_empty)
next
  case (Cons c cs)
  obtain s1 out1 where h: "handleStreamData parse s (toString c) = (s1, out1)"
    by (cases "handleStreamData parse s (toString c)")
  have l: "listeners s1 = Suc 0"
    using listeners_handleStreamData [of parse s "toString c"] h Cons.prems(1) by simp
  have "NL \<notin> set (streamBuffer (fst (handleStreamData parse s (toString c))))"
    using split_nl_no_NL [OF last_in_set [OF split_nl_not_Nil]] by (simp add: streamBuffer_handleStreamData)
  with h have "NL \<notin> set (streamBuffer s1)" by simp
  from Cons.IH [OF l this] h show ?case
    by (simp add: Cons.prems(1) each_listener_one on_data_def handleStreamData_append)
qed

lemma split_nl_lines:
  "\<forall>l\<in>set lines. NL \<notin> set l \<Longrightarrow>
   split_nl (concat (map (\<lambda>l. l @ [NL]) lines)) = lines @ [[]]"
  by (induction lines) (simp_all add: split_nl_line)

lemma correlate_all_well_formed:
  "\<forall>l\<in>set lines. parse l \<noteq> None \<Longrightarrow> length rs = length lines \<Longrightarrow>
   correlate_all parse (rs @ others) lines =
     (others, map (\<lambda>(r, l). Resolve r (the (parse l))) (zip rs lines))"
proof (induction lines arbitrary: rs)
  case Nil
  then show ?case by simp
next
  case (Cons l ls)
  then obtain r rs' where rs: "rs = r # rs'" by (cases rs) auto
  with Cons.prems have "length rs' = length ls" "\<forall>l\<in>set ls. parse l \<noteq> None" by simp_all
  from Cons.IH [OF this(2) this(1)] Cons.prems(1) rs show ?case
    by (auto simp: correlate_def)
qed

text \<open>
  On a client that called \<open>connect()\<close> once: when the strings handed to
  \<open>handleStreamData\<close>, put end to end, are as many well-formed lines as there are entries
  at the front of the queue, the entries are resolved in order, the i-th with what
  \<open>JSON.parse\<close> makes of the i-th line, whatever the chunking.
\<close>

lemma responses_resolve_in_dispatch_order:
  assumes "streamBuffer s = []" and "responseQueue s = rs @ others"
    and "length rs = length lines"
    and "\<forall>l\<in>set lines. NL \<notin> set l \<and> \<not> blank l \<and> parse l \<noteq> None"
    and "concat (map toString chunks) = concat (map (\<lambda>l. l @ [NL]) lines)"
    and "listeners s = Suc 0"
  shows "run_events parse s (map EvData chunks) =
           (s\<lparr>responseQueue := others\<rparr>,
            map (\<lambda>(r, l). Resolve r (the (parse l))) (zip rs lines))"
proof -
  have n: "NL \<notin> set (streamBuffer s)" using assms(1) by simp
  have sp: "split_nl (concat (map (\<lambda>l. l @ [NL]) lines)) = lines @ [[]]"
    using assms(4) by (simp add: split_nl_lines)
  have fl: "filter (\<lambda>l. \<not> blank l) lines = lines"
    using assms(4) by (simp add: filter_id_conv)
  have f: "frame (streamBuffer s) (concat (map toString chunks)) = (lines, [])"
    using assms(1,5) sp fl by (simp add: frame_def Let_def)
  have c: "correlate_all parse (responseQueue s) lines =
             (others, map (\<lambda>(r, l). Resolve r (the (parse l))) (zip rs lines))"
    using assms(2,3,4) by (simp add: correlate_all_well_formed)
  have "s\<lparr>streamBuffer := [], responseQueue := others\<rparr> = s\<lparr>responseQueue := others\<rparr>"
    using assms(1) by simp
  then show ?thesis
    by (simp add: run_data_fused [OF assms(6) n] handleStreamData_frame f c)
qed

text \<open>
  A chunk of ASCII bytes decodes to the same characters alone as inside the stream, so for
  an ASCII stream the result holds for every partition of the bytes.
\<close>

lemma utf8_ascii_append:
  "\<forall>b\<in>set a. unat b \<le> 0x7F \<Longrightarrow>
   utf8 0 0 0x80 0xBF (a @ rest) = map (\<lambda>b. of_nat (unat b)) a @ utf8 0 0 0x80 0xBF rest"
  by (induction a) (simp_all add: Let_def)

lemma toString_ascii_append:
  "\<forall>b\<in>set a. unat b \<le> 0x7F \<Longrightarrow> toString (a @ rest) = toString a @ toString rest"
  using utf8_ascii_append [of a rest] utf8_ascii_append [of a "[]"]
  by (simp add: toString_def)

lemma toString_ascii_chunks:
  "\<forall>c\<in>set chunks. \<forall>b\<in>set c. unat b \<le> 0x7F \<Longrightarrow>
   concat (map toString chunks) = toString (concat chunks)"
proof (induction chunks)
  case Nil
  show ?case by (simp add: toString_def)
next
  case (Cons c cs)
  then show ?case by (simp add: toString_ascii_append)
qed

lemma ascii_responses_resolve_in_dispatch_order:
  assumes "streamBuffer s = []" and "responseQueue s = rs @ others"
    and "length rs = length lines"
    and "\<forall>l\<in>set lines. NL \<notin> set l \<and> \<not> blank l \<and> parse l \<noteq> None"
    and "\<forall>c\<in>set chunks. \<forall>b\<in>set c. unat b \<le> 0x7F"
    and "toString (concat chunks) = concat (map (\<lambda>l. l @ [NL]) lines)"
    and "listeners s = Suc 0"
  shows "run_events parse s (map EvData chunks) =
           (s\<lparr>responseQueue := others\<rparr>,
            map (\<lambda>(r, l). Resolve r (the (parse l))) (zip rs lines))"
  using assms(1-4,7) toString_ascii_chunks [OF assms(5)] assms(6)
  by (intro responses_resolve_in_dispatch_order) simp_all

text \<open>
  An instance: three commands pending, two responses delivered in two chunks cut inside the
  first line; the two oldest entries are resolved in order and the third stays queued.
\<close>

lemma two_responses_in_split_chunks:
  "run_events (\<lambda>l. if l = js ''[1]'' then Some (1::nat) else if l = js ''[2]'' then Some 2 else None)
     ((constructor None)\<lparr>listeners := 1, isConnected := True, responseQueue := [10, 20, 30 :: nat]\<rparr>)
     (map EvData [ascii ''[1'', ascii '']'' @ [0x0A] @ ascii ''[2]'' @ [0x0A]])
   = ((constructor None)\<lparr>listeners := 1, isConnected := True, responseQueue := [30]\<rparr>,
      [Resolve 10 1, Resolve 20 2])"
proof -
  let ?parse = "\<lambda>l. if l = js ''[1]'' then Some (1::nat) else if l = js ''[2]'' then Some 2 else None"
  let ?s = "(constructor None)\<lparr>listeners := 1, isConnected := True, responseQueue := [10, 20, 30 :: nat]\<rparr>"
  have b: "streamBuffer ?s = []"
    by (simp add: constructor_def)
  have o: "listeners ?s = Suc 0"
    by simp
  have q: "responseQueue ?s = [10, 20] @ [30]"
    by simp
  have n: "length [10, 20 :: nat] = length [js ''[1]'', js ''[2]'']"
    by simp
  have w: "\<forall>l\<in>set [js ''[1]'', js ''[2]'']. NL \<notin> set l \<and> \<not> blank l \<and> ?parse l \<noteq> None"
    by code_simp
  have a: "\<forall>c\<in>set [ascii ''[1'', ascii '']'' @ [0x0A] @ ascii ''[2]'' @ [0x0A]]. \<forall>b\<in>set c. unat b \<le> 0x7F"
    by code_simp
  have t: "toString (concat [ascii ''[1'', ascii '']'' @ [0x0A] @ ascii ''[2]'' @ [0x0A]])
             = concat (map (\<lambda>l. l @ [NL]) [js ''[1]'', js ''[2]''])"
    by code_simp
  have z: "map (\<lambda>(r, l). Resolve r (the (?parse l))) (zip [10, 20 :: nat] [js ''[1]'', js ''[2]''])
             = [Resolve 10 1, Resolve 20 2]"
    by code_simp
  show ?thesis
    using ascii_responses_resolve_in_dispatch_order [where parse = "?parse", OF b q n w a t o] z
    by simp
qed

text \<open>
  Claim C1 says that the i-th command is resolved with the parsed content of the i-th
  response line under any partition of the byte stream into chunks. The handler of the
  \<open>data\<close> event decodes every chunk by itself (\<open>chunk.toString()\<close>), so a chunk boundary
  inside a multi-byte UTF-8 character turns the two halves of the character into U+FFFD
  each. Here a client that called \<open>connect()\<close> once has one command pending and the
  server answers with the line
  \<open>{"m":"\<dots>"}\<close> whose string is the one character U+00E9 (bytes C3 A9). Delivered
  in one chunk, the text given to \<open>JSON.parse\<close> is the line as sent; delivered in two chunks
  cut between C3 and A9, it is a different text, with U+FFFD U+FFFD where the character
  was, and the promise is settled with what \<open>JSON.parse\<close> makes of that text.
\<close>

theorem split_character_corrupts_response:
  "run_events parse ((constructor None)\<lparr>listeners := 1, isConnected := True, responseQueue := [r]\<rparr>)
     [EvData [0x7B, 0x22, 0x6D, 0x22, 0x3A, 0x22, 0xC3], EvData [0xA9, 0x22, 0x7D, 0x0A]]
   = ((constructor None)\<lparr>listeners := 1, isConnected := True, responseQueue := []\<rparr>,
      case parse [0x7B, 0x22, 0x6D, 0x22, 0x3A, 0x22, 0xFFFD, 0xFFFD, 0x22, 0x7D] of
        Some v \<Rightarrow> [Resolve r v]
      | None \<Rightarrow>
          [Log ERROR (js ''Protocol violation: Malformed JSON received.'')
             (Some [0x7B, 0x22, 0x6D, 0x22, 0x3A, 0x22, 0xFFFD, 0xFFFD, 0x22, 0x7D]),
           Reject r malformed_json])
   \<and> run_events parse ((constructor None)\<lparr>listeners := 1, isConnected := True, responseQueue := [r]\<rparr>)
     [EvData [0x7B, 0x22, 0x6D, 0x22, 0x3A, 0x22, 0xC3, 0xA9, 0x22, 0x7D, 0x0A]]
   = ((constructor None)\<lparr>listeners := 1, isConnected := True, responseQueue := []\<rparr>,
      case parse [0x7B, 0x22, 0x6D, 0x22, 0x3A, 0x22, 0xE9, 0x22, 0x7D] of
        Some v \<Rightarrow> [Resolve r v]
      | None \<Rightarrow>
          [Log ERROR (js ''Protocol violation: Malformed JSON received.'')
             (Some [0x7B, 0x22, 0x6D, 0x22, 0x3A, 0x22, 0xE9, 0x22, 0x7D]),
           Reject r malformed_json])
   \<and> toString ([0x7B, 0x22, 0x6D, 0x22, 0x3A, 0x22, 0xC3] @ [0xA9, 0x22, 0x7D, 0x0A])
     = [0x7B, 0x22, 0x6D, 0x22, 0x3A, 0x22, 0xE9, 0x22, 0x7D, 0x0A]"
proof -
  have t1: "toString [0x7B, 0x22, 0x6D, 0x22, 0x3A, 0x22, 0xC3]
              = [0x7B, 0x22, 0x6D, 0x22, 0x3A, 0x22, 0xFFFD]"
    by code_simp
  have t2: "toString [0xA9, 0x22, 0x7D, 0x0A] = [0xFFFD, 0x22, 0x7D, 0x0A]"
    by code_simp
  have t3: "toString [0x7B, 0x22, 0x6D, 0x22, 0x3A, 0x22, 0xC3, 0xA9, 0x22, 0x7D, 0x0A]
              = [0x7B, 0x22, 0x6D, 0x22, 0x3A, 0x22, 0xE9, 0x22, 0x7D, 0x0A]"
    by code_simp
  have s1: "split_nl [0x7B, 0x22, 0x6D, 0x22, 0x3A, 0x22, 0xFFFD] = [[0x7B, 0x22, 0x6D, 0x22, 0x3A, 0x22, 0xFFFD]]"
    by code_simp
  have s2: "split_nl [0x7B, 0x22, 0x6D, 0x22, 0x3A, 0x22, 0xFFFD, 0xFFFD, 0x22, 0x7D, 0x0A]
              = [[0x7B, 0x22, 0x6D, 0x22, 0x3A, 0x22, 0xFFFD, 0xFFFD, 0x22, 0x7D], []]"
    by code_simp
  have s3: "split_nl [0x7B, 0x22, 0x6D, 0x22, 0x3A, 0x22, 0xE9, 0x22, 0x7D, 0x0A]
              = [[0x7B, 0x22, 0x6D, 0x22, 0x3A, 0x22, 0xE9, 0x22, 0x7D], []]"
    by code_simp
  have b2: "\<not> blank [0x7B, 0x22, 0x6D, 0x22, 0x3A, 0x22, 0xFFFD, 0xFFFD, 0x22, 0x7D]"
    by code_simp
  have b3: "\<not> blank [0x7B, 0x22, 0x6D, 0x22, 0x3A, 0x22, 0xE9, 0x22, 0x7D]"
    by code_simp
  let ?s0 = "(constructor None)\<lparr>listeners := 1, isConnected := True, responseQueue := [r]\<rparr>"
  let ?X = "[0x7B, 0x22, 0x6D, 0x22, 0x3A, 0x22, 0xFFFD] :: jsstring"
  have f1: "frame (streamBuffer ?s0) (toString [0x7B, 0x22, 0x6D, 0x22, 0x3A, 0x22, 0xC3]) = ([], ?X)"
    unfolding t1 by (simp add: frame_def Let_def s1 constructor_def NL_def)
  have h1: "handleStreamData parse ?s0 (toString [0x7B, 0x22, 0x6D, 0x22, 0x3A, 0x22, 0xC3])
              = (?s0\<lparr>streamBuffer := ?X\<rparr>, [])"
    unfolding handleStreamData_frame f1 by simp
  have f2: "frame (streamBuffer (?s0\<lparr>streamBuffer := ?X\<rparr>)) (toString [0xA9, 0x22, 0x7D, 0x0A])
              = ([[0x7B, 0x22, 0x6D, 0x22, 0x3A, 0x22, 0xFFFD, 0xFFFD, 0x22, 0x7D]], [])"
    unfolding t2 by (simp add: frame_def Let_def s2 b2 NL_def)
  have h2: "handleStreamData parse (?s0\<lparr>streamBuffer := ?X\<rparr>) (toString [0xA9, 0x22, 0x7D, 0x0A])
              = ((constructor None)\<lparr>listeners := 1, isConnected := True, responseQueue := []\<rparr>,
      case parse [0x7B, 0x22, 0x6D, 0x22, 0x3A, 0x22, 0xFFFD, 0xFFFD, 0x22, 0x7D] of
        Some v \<Rightarrow> [Resolve r v]
      | None \<Rightarrow>
          [Log ERROR (js ''Protocol violation: Malformed JSON received.'')
             (Some [0x7B, 0x22, 0x6D, 0x22, 0x3A, 0x22, 0xFFFD, 0xFFFD, 0x22, 0x7D]),
           Reject r malformed_json])"
    unfolding handleStreamData_frame f2
    by (simp add: correlate_def constructor_def split: option.splits)
  have f3: "frame (streamBuffer ?s0) (toString [0x7B, 0x22, 0x6D, 0x22, 0x3A, 0x22, 0xC3, 0xA9, 0x22, 0x7D, 0x0A])
              = ([[0x7B, 0x22, 0x6D, 0x22, 0x3A, 0x22, 0xE9, 0x22, 0x7D]], [])"
    unfolding t3 by (simp add: frame_def Let_def s3 b3 constructor_def NL_def)
  have h3: "handleStreamData parse ?s0 (toString [0x7B, 0x22, 0x6D, 0x22, 0x3A, 0x22, 0xC3, 0xA9, 0x22, 0x7D, 0x0A])
              = ((constructor None)\<lparr>listeners := 1, isConnected := True, responseQueue := []\<rparr>,
      case parse [0x7B, 0x22, 0x6D, 0x22, 0x3A, 0x22, 0xE9, 0x22, 0x7D] of
        Some v \<Rightarrow> [Resolve r v]
      | None \<Rightarrow>
          [Log ERROR (js ''Protocol violation: Malformed JSON received.'')
             (Some [0x7B, 0x22, 0x6D, 0x22, 0x3A, 0x22, 0xE9, 0x22, 0x7D]),
           Reject r malformed_json])"
    unfolding handleStreamData_frame f3
    by (simp add: correlate_def constructor_def split: option.splits)
  have t3': "toString ([0x7B, 0x22, 0x6D, 0x22, 0x3A, 0x22, 0xC3] @ [0xA9, 0x22, 0x7D, 0x0A])
     = [0x7B, 0x22, 0x6D, 0x22, 0x3A, 0x22, 0xE9, 0x22, 0x7D, 0x0A]"
    using t3 by simp
  have o0: "listeners ?s0 = Suc 0"
    by simp
  have o1: "listeners (?s0\<lparr>streamBuffer := ?X\<rparr>) = Suc 0"
    by simp
  note e1 = h1 [folded data_one_listener [OF o0]]
  note e2 = h2 [folded data_one_listener [OF o1]]
  note e3 = h3 [folded data_one_listener [OF o0]]
  show ?thesis
    unfolding run_events.simps e1 e3
    using e2 t3' by (simp split: option.splits)
qed

end
